theory Spec2Isabelle
  imports Complex_Main
begin

section \<open>Python values shared by the modules\<close>

text \<open>
  A finite Python float is modelled as the real number it denotes.  Comparisons of floats,
  \<^verbatim>\<open>int(x)\<close> and the floored quotient of a float below \<^verbatim>\<open>2 ** 53\<close> by 60 are exact
  in float64, and so they are here.  Sums, quotients and products of floats are rounded
  by the platform.  In \<^verbatim>\<open>get_eta_string\<close>, whose result turns on a comparison of such a
  product with 60, the rounded operations are a parameter of the model; in the waveform
  scaling, in the sampling of the time indices and in the duration that
  \<^verbatim>\<open>log_completion\<close> stores they are taken without rounding.  Python exceptions are
  values.
\<close>

type_synonym path = string

datatype exn = Exception string










section \<open>ETA calculator (src/utils/eta\_calculator.py)\<close>

text \<open>
  \<^verbatim>\<open>collections.deque(maxlen=n)\<close>: appending to a full deque discards the element at the
  left end.
\<close>

definition deque_append :: "nat \<Rightarrow> 'a list \<Rightarrow> 'a \<Rightarrow> 'a list" where
  "deque_append ml xs x = (let ys = xs @ [x] in if ml < length ys then tl ys else ys)"

record eta_calculator =
  maxlen :: nat
  processing_times :: "real list"
  current_track_start_time :: "real option"

definition ETACalculator :: "nat \<Rightarrow> eta_calculator" where
  "ETACalculator max_samples =
     \<lparr>maxlen = max_samples, processing_times = [], current_track_start_time = None\<rparr>"

text \<open>The clock reading \<^verbatim>\<open>time.time()\<close> is an argument of the two methods that read it.\<close>

definition start_tracking :: "real \<Rightarrow> eta_calculator \<Rightarrow> eta_calculator" where
  "start_tracking now e = e\<lparr>current_track_start_time := Some now\<rparr>"

text \<open>
  \<^verbatim>\<open>if self.current_track_start_time:\<close> tests truthiness: \<^verbatim>\<open>None\<close> and \<^verbatim>\<open>0.0\<close> are
  both false.
\<close>

definition log_completion :: "real \<Rightarrow> eta_calculator \<Rightarrow> eta_calculator" where
  "log_completion now e =
     (case current_track_start_time e of
        None \<Rightarrow> e\<lparr>current_track_start_time := None\<rparr>
      | Some t \<Rightarrow>
          if t \<noteq> 0
          then e\<lparr>processing_times := deque_append (maxlen e) (processing_times e) (now - t),
                 current_track_start_time := None\<rparr>
          else e\<lparr>current_track_start_time := None\<rparr>)"


definition reset :: "eta_calculator \<Rightarrow> eta_calculator" where
  "reset e = e\<lparr>processing_times := [], current_track_start_time := None\<rparr>"

text \<open>A call of one of the four methods, and a sequence of calls on one calculator.\<close>

datatype eta_call =
    Start_tracking real
  | Log_completion real
  | Get_eta_string int
  | Reset

fun eta_do :: "eta_calculator \<Rightarrow> eta_call \<Rightarrow> eta_calculator" where
  "eta_do e (Start_tracking now) = start_tracking now e"
| "eta_do e (Log_completion now) = log_completion now e"
| "eta_do e (Get_eta_string _) = e"
| "eta_do e Reset = reset e"

definition eta_run :: "eta_calculator \<Rightarrow> eta_call list \<Rightarrow> eta_calculator" where
  "eta_run e calls = foldl eta_do e calls"



section \<open>Waveform generation (src/audio/processor.py, \_generate\_waveform\_lines)\<close>

text \<open>
  A two-dimensional numpy array of floats: its shape and its entries.  \<^verbatim>\<open>stft_db\<close> has one
  row per frequency bin and one column per STFT frame, so \<^verbatim>\<open>stft_db.shape[1]\<close> is the
  number of frames.
\<close>

record ndarray2 =
  shape0 :: nat
  shape1 :: nat
  entry :: "nat \<Rightarrow> nat \<Rightarrow> real"

text \<open>
  \<^verbatim>\<open>np.linspace(start, stop, num=num, dtype=int)\<close> for integer bounds: \<^verbatim>\<open>num\<close> evenly
  spaced samples \<^verbatim>\<open>start + i * step\<close> with \<^verbatim>\<open>step = (stop - start) / (num - 1)\<close>, the
  last one set to \<^verbatim>\<open>stop\<close>, each rounded down to an integer.  A single sample is
  \<^verbatim>\<open>start\<close>.
\<close>

definition linspace_int :: "int \<Rightarrow> int \<Rightarrow> nat \<Rightarrow> int list" where
  "linspace_int start stop num =
     map (\<lambda>i. if num = 1 then start
              else if i = num - 1 then stop
              else \<lfloor>real i * (of_int (stop - start) / real (num - 1)) + of_int start\<rfloor>)
         [0..<num]"

text \<open>\<^verbatim>\<open>librosa.fft_frequencies(sr=sr, n_fft=n_fft)\<close>: the centre frequencies of the bins.\<close>

definition fft_frequencies :: "real \<Rightarrow> nat \<Rightarrow> real list" where
  "fft_frequencies sr n_fft = map (\<lambda>k. real k * sr / real n_fft) [0..<1 + n_fft div 2]"

text \<open>
  \<^verbatim>\<open>stft_db[:, t]\<close>: column \<^verbatim>\<open>t\<close>; a negative index counts from the last column, an index
  out of range raises \<^verbatim>\<open>IndexError\<close>.
\<close>

definition column :: "ndarray2 \<Rightarrow> int \<Rightarrow> exn + real list" where
  "column a t =
     (let n = int (shape1 a); j = (if t < 0 then t + n else t)
      in if 0 \<le> j \<and> j < n then Inr (map (\<lambda>k. entry a k (nat j)) [0..<shape0 a])
         else Inl (Exception ''IndexError''))"

text \<open>\<^verbatim>\<open>frame[mask]\<close> for a boolean mask of the length of the frame, and \<^verbatim>\<open>np.mean\<close>.\<close>

definition select :: "real list \<Rightarrow> bool list \<Rightarrow> real list" where
  "select frame band_mask = map fst (filter snd (zip frame band_mask))"

definition mean :: "real list \<Rightarrow> real" where
  "mean xs = sum_list xs / real (length xs)"

definition scale_energy :: "real \<Rightarrow> real \<Rightarrow> real" where
  "scale_energy canvas_height energy = max 0 ((energy + 80) / 80) * (canvas_height / 2.2)"

text \<open>
  \<^verbatim>\<open>np.mean(frame[mask]) if np.any(mask) else -80.0\<close>, and the height of the bar drawn for
  one band of one frame (lines 104 to 106).
\<close>

definition band_energy :: "real list \<Rightarrow> bool list \<Rightarrow> real" where
  "band_energy frame band_mask =
     (if list_ex id band_mask then mean (select frame band_mask) else - 80)"

definition band_height :: "real \<Rightarrow> real list \<Rightarrow> bool list \<Rightarrow> real" where
  "band_height canvas_height frame band_mask =
     scale_energy canvas_height (band_energy frame band_mask)"

record waveform_line =
  coords :: "real \<times> real \<times> real \<times> real"
  fill :: string
  width :: nat

definition bar :: "nat \<Rightarrow> real \<Rightarrow> real \<Rightarrow> string \<Rightarrow> waveform_line" where
  "bar i center_y h colour =
     \<lparr>coords = (real i, center_y - h, real i, center_y + h), fill = colour, width = 1\<rparr>"

text \<open>
  The loop over \<^verbatim>\<open>enumerate(time_points)\<close>: a sampled index at or beyond the number of
  frames is skipped, any other appends the three bars of its column.
\<close>

fun waveform_loop ::
  "ndarray2 \<Rightarrow> real \<Rightarrow> bool list \<Rightarrow> bool list \<Rightarrow> bool list \<Rightarrow> (nat \<times> int) list \<Rightarrow>
     waveform_line list \<Rightarrow> exn + waveform_line list" where
  "waveform_loop stft_db canvas_height bass_mask mid_mask high_mask [] waveform_lines =
     Inr waveform_lines"
| "waveform_loop stft_db canvas_height bass_mask mid_mask high_mask ((i, t) # rest) waveform_lines =
     (if int (shape1 stft_db) \<le> t
      then waveform_loop stft_db canvas_height bass_mask mid_mask high_mask rest waveform_lines
      else
        case column stft_db t of
          Inl e \<Rightarrow> Inl e
        | Inr frame \<Rightarrow>
            waveform_loop stft_db canvas_height bass_mask mid_mask high_mask rest
              (waveform_lines @
                 [bar i (canvas_height / 2) (band_height canvas_height frame bass_mask) ''#0096FF'',
                  bar i (canvas_height / 2) (band_height canvas_height frame mid_mask) ''#4CBB17'',
                  bar i (canvas_height / 2) (band_height canvas_height frame high_mask) ''white'']))"

definition time_points :: "ndarray2 \<Rightarrow> nat \<Rightarrow> int list" where
  "time_points stft_db canvas_width = linspace_int 0 (int (shape1 stft_db) - 1) canvas_width"

text \<open>
  \<^verbatim>\<open>_generate_waveform_lines\<close> from line 82 on: \<^verbatim>\<open>stft_db\<close> is the decibel spectrogram that
  lines 80 and 81 obtain from librosa with \<^verbatim>\<open>N_FFT = 2048\<close>.
\<close>

definition generate_waveform_lines ::
  "ndarray2 \<Rightarrow> real \<Rightarrow> nat \<Rightarrow> real \<Rightarrow> exn + waveform_line list" where
  "generate_waveform_lines stft_db sr canvas_width canvas_height =
     (let freqs = fft_frequencies sr 2048;
          bass_mask = map (\<lambda>f. 20 \<le> f \<and> f < 500) freqs;
          mid_mask = map (\<lambda>f. 500 \<le> f \<and> f < 2000) freqs;
          high_mask = map (\<lambda>f. 2000 \<le> f \<and> f \<le> 20000) freqs
      in waveform_loop stft_db canvas_height bass_mask mid_mask high_mask
           (enumerate 0 (time_points stft_db canvas_width)) [])"


section \<open>Rating extraction (src/audio/processor.py, \_extract\_metadata)\<close>





section \<open>Worker pool (src/utils/threading\_utils.py)\<close>

subsection \<open>Queues\<close>

text \<open>
  A \<^verbatim>\<open>queue.Queue\<close> object: the identity it received when it was constructed, its
  \<^verbatim>\<open>maxsize\<close> and the buffered items, oldest first.  A \<^verbatim>\<open>maxsize\<close> of zero or less
  means no bound.
\<close>

record 'a py_queue =
  qid :: nat
  maxsize :: int
  items :: "'a list"

definition Queue :: "nat \<Rightarrow> int \<Rightarrow> 'a py_queue" where
  "Queue oid m = \<lparr>qid = oid, maxsize = m, items = []\<rparr>"

definition q_empty :: "'a py_queue \<Rightarrow> bool" where
  "q_empty q \<longleftrightarrow> items q = []"

definition q_full :: "'a py_queue \<Rightarrow> bool" where
  "q_full q \<longleftrightarrow> 0 < maxsize q \<and> maxsize q \<le> int (length (items q))"

definition qsize :: "'a py_queue \<Rightarrow> nat" where
  "qsize q = length (items q)"

text \<open>\<^verbatim>\<open>put\<close> once there is room, and the loop \<^verbatim>\<open>while not q.empty(): q.get_nowait()\<close>.\<close>

definition q_append :: "'a \<Rightarrow> 'a py_queue \<Rightarrow> 'a py_queue" where
  "q_append x q = q\<lparr>items := items q @ [x]\<rparr>"

fun drain :: "'a list \<Rightarrow> 'a list" where
  "drain [] = []"
| "drain (x # xs) = drain xs"

definition q_clear :: "'a py_queue \<Rightarrow> 'a py_queue" where
  "q_clear q = q\<lparr>items := drain (items q)\<rparr>"

subsection \<open>The manager and its threads\<close>

text \<open>
  Where a worker thread stands in \<^verbatim>\<open>_worker_wrapper\<close>: at the test of the \<^verbatim>\<open>while\<close>
  loop, inside \<^verbatim>\<open>file_path_queue.get(timeout=0.5)\<close>, inside
  \<^verbatim>\<open>worker_function(filepath)\<close>, inside \<^verbatim>\<open>analysis_queue.put(result)\<close>, or returned.
\<close>

datatype 'r worker_pc =
    AtWhile
  | AtGet
  | AtCall path
  | AtPut path 'r
  | Exited

text \<open>
  The fields of \<^verbatim>\<open>WorkerManager\<close>, with \<^verbatim>\<open>worker_threads\<close> holding thread identifiers,
  and what lives outside the object: every thread started so far (a thread's identifier is
  its position in \<^verbatim>\<open>threads\<close>), the lines written by \<^verbatim>\<open>logger.error\<close>, and the number
  of queue objects constructed so far.
\<close>

record 'r worker_manager =
  num_workers :: int
  worker_function :: "path \<Rightarrow> exn + 'r"
  stop_event :: bool
  worker_threads :: "nat list"
  file_path_queue :: "path py_queue"
  analysis_queue :: "'r py_queue"
  threads :: "'r worker_pc list"
  error_log :: "string list"
  next_oid :: nat

definition WorkerManager :: "int \<Rightarrow> (path \<Rightarrow> exn + 'r) \<Rightarrow> 'r worker_manager" where
  "WorkerManager n f =
     \<lparr>num_workers = n, worker_function = f, stop_event = False, worker_threads = [],
      file_path_queue = Queue 0 0, analysis_queue = Queue 1 (n + 1),
      threads = [], error_log = [], next_oid = 2\<rparr>"

definition set_pc :: "nat \<Rightarrow> 'r worker_pc \<Rightarrow> 'r worker_manager \<Rightarrow> 'r worker_manager" where
  "set_pc tid pc m = m\<lparr>threads := (threads m)[tid := pc]\<rparr>"

definition is_alive :: "'r worker_manager \<Rightarrow> nat \<Rightarrow> bool" where
  "is_alive m tid \<longleftrightarrow> tid < length (threads m) \<and> threads m ! tid \<noteq> Exited"

text \<open>
  One atomic step of thread \<^verbatim>\<open>tid\<close> in \<^verbatim>\<open>_worker_wrapper\<close>.  \<^verbatim>\<open>get(timeout=0.5)\<close> on an
  empty queue ends in \<^verbatim>\<open>queue.Empty\<close>, and the handler leaves the loop.  \<^verbatim>\<open>put\<close> on a
  full queue waits: the step changes nothing.  A thread that has returned, or an identifier
  that names no thread, does nothing.  The worker function raises only what
  \<^verbatim>\<open>except Exception\<close> catches, and \<^verbatim>\<open>task_done\<close>, which only counts, is left out.
\<close>

definition worker_step :: "nat \<Rightarrow> 'r worker_manager \<Rightarrow> 'r worker_manager" where
  "worker_step tid m =
     (if tid < length (threads m) then
        (case threads m ! tid of
           AtWhile \<Rightarrow> if stop_event m then set_pc tid Exited m else set_pc tid AtGet m
         | AtGet \<Rightarrow>
             (case items (file_path_queue m) of
                [] \<Rightarrow> set_pc tid Exited m
              | filepath # rest \<Rightarrow>
                  set_pc tid (AtCall filepath)
                    (m\<lparr>file_path_queue := (file_path_queue m)\<lparr>items := rest\<rparr>\<rparr>))
         | AtCall filepath \<Rightarrow>
             (case worker_function m filepath of
                Inr result \<Rightarrow> set_pc tid (AtPut filepath result) m
              | Inl (Exception e) \<Rightarrow>
                  set_pc tid AtWhile
                    (m\<lparr>error_log := error_log m
                         @ [''Worker error processing '' @ filepath @ '': '' @ e]\<rparr>))
         | AtPut filepath result \<Rightarrow>
             if q_full (analysis_queue m) then m
             else set_pc tid AtWhile (m\<lparr>analysis_queue := q_append result (analysis_queue m)\<rparr>)
         | Exited \<Rightarrow> m)
      else m)"

text \<open>Worker steps taken one after the other, in the order of a schedule.\<close>

fun run_workers :: "nat list \<Rightarrow> 'r worker_manager \<Rightarrow> 'r worker_manager" where
  "run_workers [] m = m"
| "run_workers (tid # sched) m = run_workers sched (worker_step tid m)"

subsection \<open>The methods called by the review loop\<close>

definition clear_file_queue :: "'r worker_manager \<Rightarrow> 'r worker_manager" where
  "clear_file_queue m = m\<lparr>file_path_queue := q_clear (file_path_queue m)\<rparr>"

text \<open>\<^verbatim>\<open>_clear_queues\<close> when no other thread takes a step during it.\<close>

definition clear_queues :: "'r worker_manager \<Rightarrow> 'r worker_manager" where
  "clear_queues m =
     (let m1 = clear_file_queue m in m1\<lparr>analysis_queue := q_clear (analysis_queue m1)\<rparr>)"

text \<open>
  \<^verbatim>\<open>stop_workers\<close>.  The loop over \<^verbatim>\<open>thread.join(timeout=1.0)\<close> changes no field; while
  the caller waits in it the worker threads take the steps of \<^verbatim>\<open>sched\<close>.  A thread that
  has not returned when the waiting ends is left running.
\<close>

definition stop_workers :: "nat list \<Rightarrow> 'r worker_manager \<Rightarrow> 'r worker_manager" where
  "stop_workers sched m =
     (let m1 = m\<lparr>stop_event := True\<rparr>;
          m2 = clear_file_queue m1;
          m3 = run_workers sched m2
      in m3\<lparr>worker_threads := [], stop_event := False\<rparr>)"

text \<open>
  \<^verbatim>\<open>threading.Thread(target=self._worker_wrapper, daemon=True)\<close>, \<^verbatim>\<open>thread.start()\<close> and
  \<^verbatim>\<open>self.worker_threads.append(thread)\<close>.
\<close>

definition spawn_worker :: "'r worker_manager \<Rightarrow> 'r worker_manager" where
  "spawn_worker m =
     m\<lparr>threads := threads m @ [AtWhile],
       worker_threads := worker_threads m @ [length (threads m)]\<rparr>"

text \<open>
  \<^verbatim>\<open>self.file_path_queue.put(filepath)\<close>: the input queue has no bound, so the call never
  waits.
\<close>

definition put_file :: "path \<Rightarrow> 'r worker_manager \<Rightarrow> 'r worker_manager" where
  "put_file filepath m = m\<lparr>file_path_queue := q_append filepath (file_path_queue m)\<rparr>"

text \<open>
  Where the caller stands in \<^verbatim>\<open>start_workers\<close> once \<^verbatim>\<open>stop_workers\<close> has returned:
  in the loop of \<^verbatim>\<open>_clear_file_queue\<close>, in the loop of \<^verbatim>\<open>_clear_queues\<close> over the
  output queue, in the loop that puts the files still to be queued, at
  \<^verbatim>\<open>self.worker_threads = []\<close>, in the loop that starts the threads still to be started,
  or returned.
\<close>

datatype caller_pc =
    AtClearFile
  | AtClearAnalysis
  | AtPutLoop "path list"
  | AtResetThreads
  | AtSpawnLoop nat
  | Returned

text \<open>
  One atomic step of the caller: one \<^verbatim>\<open>get_nowait\<close> or the test that ends a draining
  loop, one \<^verbatim>\<open>put\<close>, the assignment, or one thread created, started and appended.
\<close>

fun caller_step ::
  "path list \<Rightarrow> caller_pc \<Rightarrow> 'r worker_manager \<Rightarrow> caller_pc \<times> 'r worker_manager" where
  "caller_step file_list AtClearFile m =
     (case items (file_path_queue m) of
        [] \<Rightarrow> (AtClearAnalysis, m)
      | p # rest \<Rightarrow> (AtClearFile, m\<lparr>file_path_queue := (file_path_queue m)\<lparr>items := rest\<rparr>\<rparr>))"
| "caller_step file_list AtClearAnalysis m =
     (case items (analysis_queue m) of
        [] \<Rightarrow> (AtPutLoop file_list, m)
      | r # rest \<Rightarrow> (AtClearAnalysis, m\<lparr>analysis_queue := (analysis_queue m)\<lparr>items := rest\<rparr>\<rparr>))"
| "caller_step file_list (AtPutLoop []) m = (AtResetThreads, m)"
| "caller_step file_list (AtPutLoop (filepath # rest)) m = (AtPutLoop rest, put_file filepath m)"
| "caller_step file_list AtResetThreads m =
     (AtSpawnLoop (nat (num_workers m)), m\<lparr>worker_threads := []\<rparr>)"
| "caller_step file_list (AtSpawnLoop 0) m = (Returned, m)"
| "caller_step file_list (AtSpawnLoop (Suc k)) m = (AtSpawnLoop k, spawn_worker m)"
| "caller_step file_list Returned m = (Returned, m)"

text \<open>The number of steps the caller still has to take, at most.\<close>

fun call_size :: "path list \<Rightarrow> caller_pc \<Rightarrow> 'r worker_manager \<Rightarrow> nat" where
  "call_size file_list AtClearFile m =
     length (items (file_path_queue m)) + length (items (analysis_queue m))
       + length file_list + nat (num_workers m) + 5"
| "call_size file_list AtClearAnalysis m =
     length (items (analysis_queue m)) + length file_list + nat (num_workers m) + 4"
| "call_size file_list (AtPutLoop rest) m = length rest + nat (num_workers m) + 3"
| "call_size file_list AtResetThreads m = nat (num_workers m) + 2"
| "call_size file_list (AtSpawnLoop k) m = k + 1"
| "call_size file_list Returned m = 0"

text \<open>
  Whose turn it is: the caller's or that of a worker thread.  \<^verbatim>\<open>run_call\<close> runs the rest
  of \<^verbatim>\<open>start_workers\<close> under an interleaving: each turn is one atomic step of the caller
  or of a worker thread, until the caller has returned; when the turns are used up, the
  caller takes its remaining steps without being interrupted.
\<close>

datatype turn = Caller | Worker nat

function run_call ::
  "turn list \<Rightarrow> path list \<Rightarrow> caller_pc \<Rightarrow> 'r worker_manager \<Rightarrow> 'r worker_manager" where
  "run_call turns file_list pc m =
     (if pc = Returned then m
      else
        case turns of
          [] \<Rightarrow> (case caller_step file_list pc m of (pc', m') \<Rightarrow> run_call [] file_list pc' m')
        | Caller # rest \<Rightarrow>
            (case caller_step file_list pc m of (pc', m') \<Rightarrow> run_call rest file_list pc' m')
        | Worker tid # rest \<Rightarrow> run_call rest file_list pc (worker_step tid m))"
  by pat_completeness auto
termination
proof -
  have dec: "call_size file_list (fst (caller_step file_list pc m))
               (snd (caller_step file_list pc m)) < call_size file_list pc m"
    if "pc \<noteq> Returned" for file_list pc and m :: "'r worker_manager"
    using that
    by (induction file_list pc m rule: caller_step.induct)
       (auto simp: put_file_def spawn_worker_def split: list.splits)
  show ?thesis
    by (relation "inv_image (less_than <*lex*> less_than)
                   (\<lambda>(turns, file_list, pc, m). (length turns, call_size file_list pc m))")
       (auto simp: case_prod_beta dec)
qed

declare run_call.simps [simp del]

text \<open>
  \<^verbatim>\<open>start_workers\<close>.  The worker threads take the steps of \<^verbatim>\<open>sched\<close> while the caller
  waits in the joins of \<^verbatim>\<open>stop_workers\<close>, and the rest of the call runs under the
  interleaving \<^verbatim>\<open>turns\<close>.
\<close>

definition start_workers ::
  "nat list \<Rightarrow> turn list \<Rightarrow> path list \<Rightarrow> 'r worker_manager \<Rightarrow> 'r worker_manager" where
  "start_workers sched turns file_list m =
     run_call turns file_list AtClearFile (stop_workers sched m)"

text \<open>
  \<^verbatim>\<open>get_result\<close>: the item at the head of the output queue, or \<^verbatim>\<open>None\<close> when the wait
  ends with the queue still empty.
\<close>

definition get_result :: "'r worker_manager \<Rightarrow> 'r option \<times> 'r worker_manager" where
  "get_result m =
     (case items (analysis_queue m) of
        [] \<Rightarrow> (None, m)
      | r # rest \<Rightarrow> (Some r, m\<lparr>analysis_queue := (analysis_queue m)\<lparr>items := rest\<rparr>\<rparr>))"

definition has_pending_files :: "'r worker_manager \<Rightarrow> bool" where
  "has_pending_files m \<longleftrightarrow> \<not> q_empty (file_path_queue m)"

definition has_results :: "'r worker_manager \<Rightarrow> bool" where
  "has_results m \<longleftrightarrow> \<not> q_empty (analysis_queue m)"

definition workers_active :: "'r worker_manager \<Rightarrow> bool" where
  "workers_active m \<longleftrightarrow> list_ex (is_alive m) (worker_threads m)"

definition get_queue_sizes :: "'r worker_manager \<Rightarrow> nat \<times> nat" where
  "get_queue_sizes m = (qsize (file_path_queue m), qsize (analysis_queue m))"

subsection \<open>Executions\<close>

text \<open>
  What can happen to a pool: a worker thread takes a step, or the review loop calls
  \<^verbatim>\<open>start_workers\<close>, \<^verbatim>\<open>stop_workers\<close> or \<^verbatim>\<open>get_result\<close>, the worker threads running
  during the first two as the event says.  An execution is a list of such events.
\<close>

datatype event =
    Work nat
  | Start_workers "nat list" "turn list" "path list"
  | Stop_workers "nat list"
  | Get_result

fun exec :: "'r worker_manager \<Rightarrow> event \<Rightarrow> 'r worker_manager" where
  "exec m (Work tid) = worker_step tid m"
| "exec m (Start_workers sched turns file_list) = start_workers sched turns file_list m"
| "exec m (Stop_workers sched) = stop_workers sched m"
| "exec m Get_result = snd (get_result m)"

definition run :: "'r worker_manager \<Rightarrow> event list \<Rightarrow> 'r worker_manager" where
  "run m evs = foldl exec m evs"

text \<open>
  The dictionary returned by \<^verbatim>\<open>analyze_audio_file\<close> (processor.py, lines 54 to 60); its
  entry \<^verbatim>\<open>'filepath'\<close> is the path that was analysed.
\<close>

record analysis_result =
  filepath :: path
  audio_data :: "nat list"
  duration :: real
  waveform_lines :: "waveform_line list"
  metadata :: "(string \<times> string) list"

text \<open>
  A worker function for concrete executions: like \<^verbatim>\<open>analyze_audio_file\<close> it returns a
  result carrying the path it was given, and it raises on the one file it cannot decode.
\<close>

definition analyze_stub :: "path \<Rightarrow> exn + analysis_result" where
  "analyze_stub p =
     (if p = ''corrupt.mp3'' then Inl (Exception ''DecodeError'')
      else Inr \<lparr>filepath = p, audio_data = [], duration = 0, waveform_lines = [],
                metadata = []\<rparr>)"


subsection \<open>Invariants of the pool\<close>

text \<open>The output queue is bounded and holds no more items than its bound.\<close>

definition out_bounded :: "'r worker_manager \<Rightarrow> bool" where
  "out_bounded m \<longleftrightarrow>
     0 < maxsize (analysis_queue m)
     \<and> int (length (items (analysis_queue m))) \<le> maxsize (analysis_queue m)"

text \<open>
  Every buffered result, and every result a thread is about to push, was returned by the
  worker function.
\<close>

definition results_ok :: "'r worker_manager \<Rightarrow> bool" where
  "results_ok m \<longleftrightarrow>
     (\<forall>r \<in> set (items (analysis_queue m)). \<exists>p. worker_function m p = Inr r)
     \<and> (\<forall>i < length (threads m). \<forall>p r.
           threads m ! i = AtPut p r \<longrightarrow> worker_function m p = Inr r)"


section \<open>Concrete inputs\<close>

text \<open>
  Ten reviewed tracks that took 1, 2, ..., 10 seconds, and an eleventh whose review starts
  at time 200.
\<close>

definition ten_tracks :: "eta_call list" where
  "ten_tracks =
     [Start_tracking 10, Log_completion 11, Start_tracking 20, Log_completion 22,
      Start_tracking 30, Log_completion 33, Start_tracking 40, Log_completion 44,
      Start_tracking 50, Log_completion 55, Start_tracking 60, Log_completion 66,
      Start_tracking 70, Log_completion 77, Get_eta_string 5,
      Start_tracking 80, Log_completion 88,
      Start_tracking 90, Log_completion 99, Start_tracking 100, Log_completion 110,
      Start_tracking 200]"


text \<open>The defaults of \<^verbatim>\<open>canvas_width\<close> and \<^verbatim>\<open>canvas_height\<close> (processor.py, line 66).\<close>

definition default_canvas_width :: nat where
  "default_canvas_width = 1160"

definition default_canvas_height :: real where
  "default_canvas_height = 400"

text \<open>A spectrogram of three frames, and tags that carry a rating in both encodings.\<close>

definition stft_stub :: ndarray2 where
  "stft_stub = \<lparr>shape0 = 1025, shape1 = 3, entry = (\<lambda>k t. - real (k + t))\<rparr>"




text \<open>
  A pool of one worker whose consumer lags: the worker has analysed the three files of
  batch A, two results fill the output queue and the worker waits in \<^verbatim>\<open>put\<close> with the
  third.  Then the review loop starts the pool again with batch B, the worker threads
  being scheduled as \<^verbatim>\<open>sched\<close> says while \<^verbatim>\<open>join\<close> waits and not at all during the
  rest of the call, and the worker of batch A takes its next step.
\<close>

definition batch_A :: "path list" where
  "batch_A = [''a1.mp3'', ''a2.mp3'', ''a3.mp3'']"

definition batch_B :: "path list" where
  "batch_B = [''b1.mp3'']"

definition backlog_trace :: "event list" where
  "backlog_trace =
     [Start_workers [] [] batch_A,
      Work 0, Work 0, Work 0, Work 0,
      Work 0, Work 0, Work 0, Work 0,
      Work 0, Work 0, Work 0]"

definition restart_trace :: "nat list \<Rightarrow> event list" where
  "restart_trace sched = backlog_trace @ [Start_workers sched [] batch_B, Work 0]"

text \<open>
  A pool of two workers started on a single file: the first worker has claimed the file,
  the second is in \<^verbatim>\<open>get\<close> on the empty input queue.
\<close>

definition idle_pool :: "analysis_result worker_manager" where
  "idle_pool =
     run (WorkerManager 2 analyze_stub)
       [Start_workers [] [] [''a.mp3''], Work 0, Work 0, Work 1]"

text \<open>A pool whose stop flag has just been set while its worker is at the loop test.\<close>

definition stopping_pool :: "analysis_result worker_manager" where
  "stopping_pool =
     (run (WorkerManager 1 analyze_stub)
        [Start_workers [] [] [''a.mp3'']])\<lparr>stop_event := True\<rparr>"

text \<open>
  The restart of the lagging pool as it runs when starting the new thread lets the worker
  of batch A in: the caller drains both queues, puts the file of batch B and starts the
  new thread (eight steps); the worker of batch A pushes its result, passes the loop test,
  claims the file of batch B, analyses it and pushes that result too (five steps); the
  caller returns.
\<close>

definition race_turns :: "turn list" where
  "race_turns =
     [Caller, Caller, Caller, Caller, Caller, Caller, Caller, Caller,
      Worker 0, Worker 0, Worker 0, Worker 0, Worker 0,
      Caller]"

text \<open>A pool whose worker is analysing a file that cannot be decoded.\<close>

definition corrupt_pool :: "analysis_result worker_manager" where
  "corrupt_pool =
     run (WorkerManager 1 analyze_stub)
       [Start_workers [] [] [''corrupt.mp3'', ''ok.mp3''], Work 0, Work 0]"


section \<open>Properties of the ETA calculator\<close>









lemma deque_append_length: "length xs \<le> ml \<Longrightarrow> length (deque_append ml xs x) \<le> ml"
  by (auto simp: deque_append_def Let_def)

lemma deque_append_full: "length xs = ml \<Longrightarrow> 0 < ml \<Longrightarrow> deque_append ml xs x = tl xs @ [x]"
  by (cases xs) (auto simp: deque_append_def Let_def)

lemma eta_do_ring:
  "length (processing_times e) \<le> maxlen e \<Longrightarrow>
   length (processing_times (eta_do e c)) \<le> maxlen (eta_do e c) \<and> maxlen (eta_do e c) = maxlen e"
  by (cases c)
     (auto simp: start_tracking_def log_completion_def reset_def deque_append_length
           split: option.splits)

lemma eta_run_ring:
  "length (processing_times e) \<le> maxlen e \<Longrightarrow>
   length (processing_times (eta_run e calls)) \<le> maxlen e \<and> maxlen (eta_run e calls) = maxlen e"
  unfolding eta_run_def
proof (induction calls arbitrary: e)
  case Nil
  then show ?case by simp
next
  case (Cons c calls)
  from eta_do_ring [OF Cons.prems, of c] Cons.IH [of "eta_do e c"]
  show ?case by simp
qed

lemma log_completion_evicts:
  assumes "length (processing_times e) = maxlen e" and "0 < maxlen e"
    and "current_track_start_time e = Some t" and "t \<noteq> 0"
  shows "processing_times (log_completion now e) = tl (processing_times e) @ [now - t]"
  using assms by (simp add: log_completion_def deque_append_full)

text \<open>
  Claim C7.  Whatever sequence of \<^verbatim>\<open>start_tracking\<close>, \<^verbatim>\<open>log_completion\<close>,
  \<^verbatim>\<open>get_eta_string\<close> and \<^verbatim>\<open>reset\<close> calls is made on a calculator constructed with the
  default of 10 samples, the ring holds at most 10 samples; and when it holds 10 and a
  completion is logged for a running measurement, the oldest sample is dropped and the new
  one is added at the end.
\<close>

theorem pacing_ring_at_most_10:
  "length (processing_times (eta_run (ETACalculator 10) calls)) \<le> 10
   \<and> (length (processing_times (eta_run (ETACalculator 10) calls)) = 10
        \<and> current_track_start_time (eta_run (ETACalculator 10) calls) = Some t \<and> t \<noteq> 0
      \<longrightarrow> processing_times (log_completion now (eta_run (ETACalculator 10) calls))
            = tl (processing_times (eta_run (ETACalculator 10) calls)) @ [now - t])"
proof -
  have init: "length (processing_times (ETACalculator 10)) \<le> maxlen (ETACalculator 10)"
    and ml: "maxlen (ETACalculator 10) = 10"
    by (simp_all add: ETACalculator_def)
  from eta_run_ring [OF init, of calls] ml
  have ring: "length (processing_times (eta_run (ETACalculator 10) calls)) \<le> 10"
    and ml': "maxlen (eta_run (ETACalculator 10) calls) = 10"
    by simp_all
  show ?thesis
    using ring ml' log_completion_evicts [of "eta_run (ETACalculator 10) calls" t now]
    by simp
qed

theorem pacing_ring_at_most_10_witness:
  "length (processing_times (eta_run (ETACalculator 10) ten_tracks)) = 10
   \<and> processing_times (eta_run (ETACalculator 10) ten_tracks) = [1, 2, 3, 4, 5, 6, 7, 8, 9, 10]
   \<and> processing_times (log_completion 211 (eta_run (ETACalculator 10) ten_tracks))
       = [2, 3, 4, 5, 6, 7, 8, 9, 10, 11]"
  using pacing_ring_at_most_10 [of ten_tracks 200 211]
  by (simp add: ten_tracks_def eta_run_def ETACalculator_def start_tracking_def
        log_completion_def deque_append_def)


section \<open>Properties of the waveform generation\<close>

lemma scale_energy_floor: "e \<le> - 80 \<Longrightarrow> scale_energy H e = 0"
  by (simp add: scale_energy_def max_def)

lemma scale_energy_zero_db: "scale_energy H 0 = H / 2.2"
  by (simp add: scale_energy_def)

text \<open>
  Claim C4.  The height drawn for a band is the scaled mean of the band (or of the
  sentinel \<^verbatim>\<open>-80\<close> when the band has no bin), and scaling an energy \<^verbatim>\<open>e\<close> gives
  \<^verbatim>\<open>max(0, (e + 80) / 80) * (canvas_height / 2.2)\<close>: zero for every energy of \<^verbatim>\<open>-80\<close> or
  less, \<^verbatim>\<open>canvas_height / 2.2\<close> for the energy 0, which is \<^verbatim>\<open>400 / 2.2\<close> at the default
  height.
\<close>

theorem scale_energy_range:
  "band_height H frame bm
     = scale_energy H (if list_ex id bm then mean (select frame bm) else - 80)
   \<and> scale_energy H e = max 0 ((e + 80) / 80) * (H / 2.2)
   \<and> (e \<le> - 80 \<longrightarrow> scale_energy H e = 0)
   \<and> scale_energy H 0 = H / 2.2
   \<and> scale_energy default_canvas_height 0 = 400 / 2.2
   \<and> (\<not> list_ex id bm \<longrightarrow> band_height H frame bm = 0)"
  by (simp add: band_height_def band_energy_def scale_energy_floor scale_energy_zero_db
        default_canvas_height_def)
     (simp add: scale_energy_def)

theorem scale_energy_range_witness:
  "scale_energy 400 (- 100) = 0 \<and> scale_energy 400 (- 40) = 1000 / 11
   \<and> band_height 400 [- 10, - 30, - 50] [False, True, True] = 1000 / 11
   \<and> band_height 400 [- 10, - 30, - 50] [False, False, False] = 0"
  using scale_energy_range [of 400 "[- 10, - 30, - 50]" "[False, True, True]" "- 100"]
    scale_energy_range [of 400 "[- 10, - 30, - 50]" "[False, False, False]" "- 40"]
  by (simp add: scale_energy_def mean_def select_def default_canvas_height_def)

lemma linspace_int_bounds:
  assumes "0 \<le> stop" and "t \<in> set (linspace_int 0 stop num)"
  shows "0 \<le> t \<and> t \<le> stop"
proof -
  define f where "f = (\<lambda>i. if num = 1 then 0 else if i = num - 1 then stop
                 else \<lfloor>real i * (of_int (stop - 0) / real (num - 1)) + of_int 0\<rfloor>)"
  from assms(2) have "t \<in> f ` {0..<num}"
    by (simp add: linspace_int_def f_def)
  then obtain i where i: "i < num" and t: "t = f i"
    by auto
  show ?thesis
  proof (cases "num = 1 \<or> i = num - 1")
    case True
    with t assms(1) show ?thesis by (auto simp: f_def)
  next
    case False
    with i have lt: "i < num - 1" and pos: "0 < num - 1" by auto
    define x where "x = real i * (real_of_int stop / real (num - 1))"
    from False t have tx: "t = \<lfloor>x\<rfloor>" by (simp add: x_def f_def)
    have "0 \<le> x" using assms(1) by (simp add: x_def)
    moreover have "x \<le> real_of_int stop"
    proof -
      have "real i / real (num - 1) \<le> 1" using lt pos by simp
      then have "real_of_int stop * (real i / real (num - 1)) \<le> real_of_int stop * 1"
        using assms(1) by (intro mult_left_mono) simp_all
      then show ?thesis by (simp add: x_def mult.commute)
    qed
    ultimately show ?thesis unfolding tx by (simp add: floor_le_iff le_floor_iff)
  qed
qed

lemma length_linspace_int: "length (linspace_int a b num) = num"
  by (simp add: linspace_int_def)

lemma time_points_in_range:
  assumes "1 \<le> shape1 a" and "t \<in> set (time_points a w)"
  shows "0 \<le> t \<and> t < int (shape1 a)"
  using linspace_int_bounds [of "int (shape1 a) - 1" t w] assms
  by (simp add: time_points_def)

lemma waveform_loop_total:
  assumes "\<forall>(i, t) \<in> set its. 0 \<le> t \<and> t < int (shape1 a)"
  shows "\<exists>ls. waveform_loop a h bm mm hm its acc = Inr ls
           \<and> length ls = length acc + 3 * length its"
  using assms
proof (induction its arbitrary: acc)
  case Nil
  then show ?case by simp
next
  case (Cons it its)
  obtain i t where it: "it = (i, t)" by (cases it)
  from Cons.prems it have t: "0 \<le> t" "t < int (shape1 a)"
    and rest: "\<forall>(i, t) \<in> set its. 0 \<le> t \<and> t < int (shape1 a)"
    by auto
  from t obtain frame where col: "column a t = Inr frame"
    by (auto simp: column_def Let_def)
  define acc' where "acc' = acc @
     [bar i (h / 2) (band_height h frame bm) ''#0096FF'',
      bar i (h / 2) (band_height h frame mm) ''#4CBB17'',
      bar i (h / 2) (band_height h frame hm) ''white'']"
  from Cons.IH [OF rest, of acc'] obtain ls where
    "waveform_loop a h bm mm hm its acc' = Inr ls" and "length ls = length acc' + 3 * length its"
    by blast
  with t col it show ?case by (simp add: acc'_def)
qed

text \<open>
  Claim C9.  When the spectrogram has at least one frame, every sampled time index lies
  in \<^verbatim>\<open>[0, frames - 1]\<close>, so no column is skipped and no index is out of range: the
  function returns a list of exactly \<^verbatim>\<open>3 * canvas_width\<close> lines, 3480 of them at the
  default width of 1160.
\<close>

theorem waveform_lines_complete:
  assumes "1 \<le> shape1 stft_db"
  shows "(\<forall>t \<in> set (time_points stft_db canvas_width). 0 \<le> t \<and> t < int (shape1 stft_db))
     \<and> (\<exists>ls. generate_waveform_lines stft_db sr canvas_width canvas_height = Inr ls
            \<and> length ls = 3 * canvas_width)
     \<and> (\<exists>ls. generate_waveform_lines stft_db sr default_canvas_width canvas_height = Inr ls
            \<and> length ls = 3480)"
proof -
  have rng: "\<forall>(i, t) \<in> set (enumerate 0 (time_points stft_db w)).
               0 \<le> t \<and> t < int (shape1 stft_db)" for w
    using time_points_in_range [OF assms, of _ w] by (auto simp: in_set_enumerate_eq)
  have gen: "\<exists>ls. generate_waveform_lines stft_db sr w canvas_height = Inr ls
               \<and> length ls = 3 * w" for w
    using waveform_loop_total [OF rng [of w], of canvas_height _ _ _ "[]"]
    by (simp add: generate_waveform_lines_def Let_def time_points_def length_linspace_int)
  show ?thesis
    using time_points_in_range [OF assms] gen [of canvas_width] gen [of 1160]
    by (auto simp: default_canvas_width_def)
qed

theorem waveform_lines_complete_witness:
  "(1::nat) \<le> shape1 stft_stub \<and> time_points stft_stub 4 = [0, 0, 1, 2]
   \<and> (case generate_waveform_lines stft_stub 44100 4 400 of Inr ls \<Rightarrow> length ls | Inl _ \<Rightarrow> 0)
       = 12"
proof -
  have tp: "time_points stft_stub 4 = [0, 0, 1, 2]"
    by code_simp
  have s1: "(1::nat) \<le> shape1 stft_stub"
    by (simp add: stft_stub_def)
  from waveform_lines_complete [OF s1, of 4 44100 400] tp s1 show ?thesis
    by auto
qed


section \<open>Properties of the rating extraction\<close>





section \<open>Properties of the worker pool\<close>

subsection \<open>Interleavings of a call\<close>

lemma run_call_invariant:
  assumes step: "\<And>fl pc m. P m \<Longrightarrow> P (snd (caller_step fl pc m))"
    and work: "\<And>tid m. P m \<Longrightarrow> P (worker_step tid m)"
    and init: "P m"
  shows "P (run_call turns file_list pc m)"
  using init
proof (induction turns file_list pc m rule: run_call.induct)
  case (1 turns file_list pc m)
  show ?case
  proof (cases "pc = Returned")
    case True
    with "1.prems" show ?thesis by (simp add: run_call.simps)
  next
    case False
    obtain pc' m' where cs: "caller_step file_list pc m = (pc', m')"
      by (cases "caller_step file_list pc m")
    from step [OF "1.prems", of file_list pc] have P': "P m'" unfolding cs by simp
    show ?thesis
    proof (cases turns)
      case Nil
      with False cs "1.IH"(1) [OF False Nil cs [symmetric] P'] show ?thesis
        by (simp add: run_call.simps [of "[]" file_list pc m])
    next
      case (Cons t rest)
      show ?thesis
      proof (cases t)
        case Caller
        with False Cons cs "1.IH"(2) [OF False Cons Caller cs [symmetric] P'] show ?thesis
          by (simp add: run_call.simps [of "Caller # rest" file_list pc m])
      next
        case (Worker tid)
        with False Cons "1.IH"(3) [OF False Cons Worker work [OF "1.prems"]] show ?thesis
          by (simp add: run_call.simps [of "Worker tid # rest" file_list pc m])
      qed
    qed
  qed
qed

subsection \<open>Fields that the steps and the methods leave alone\<close>

lemma drain_Nil [simp]: "drain xs = []"
  by (induction xs) simp_all

lemma worker_step_fields [simp]:
  "num_workers (worker_step tid m) = num_workers m"
  "worker_function (worker_step tid m) = worker_function m"
  "stop_event (worker_step tid m) = stop_event m"
  "worker_threads (worker_step tid m) = worker_threads m"
  "next_oid (worker_step tid m) = next_oid m"
  "qid (file_path_queue (worker_step tid m)) = qid (file_path_queue m)"
  "maxsize (file_path_queue (worker_step tid m)) = maxsize (file_path_queue m)"
  "qid (analysis_queue (worker_step tid m)) = qid (analysis_queue m)"
  "maxsize (analysis_queue (worker_step tid m)) = maxsize (analysis_queue m)"
  "length (threads (worker_step tid m)) = length (threads m)"
  by (auto simp: worker_step_def set_pc_def q_append_def
           split: worker_pc.splits list.splits sum.splits exn.splits)

lemma run_workers_fields [simp]:
  "num_workers (run_workers sched m) = num_workers m"
  "worker_function (run_workers sched m) = worker_function m"
  "stop_event (run_workers sched m) = stop_event m"
  "worker_threads (run_workers sched m) = worker_threads m"
  "next_oid (run_workers sched m) = next_oid m"
  "qid (file_path_queue (run_workers sched m)) = qid (file_path_queue m)"
  "maxsize (file_path_queue (run_workers sched m)) = maxsize (file_path_queue m)"
  "qid (analysis_queue (run_workers sched m)) = qid (analysis_queue m)"
  "maxsize (analysis_queue (run_workers sched m)) = maxsize (analysis_queue m)"
  "length (threads (run_workers sched m)) = length (threads m)"
  by (induction sched arbitrary: m) simp_all

lemma caller_step_fields [simp]:
  "num_workers (snd (caller_step fl pc m)) = num_workers m"
  "worker_function (snd (caller_step fl pc m)) = worker_function m"
  "stop_event (snd (caller_step fl pc m)) = stop_event m"
  "next_oid (snd (caller_step fl pc m)) = next_oid m"
  "qid (file_path_queue (snd (caller_step fl pc m))) = qid (file_path_queue m)"
  "maxsize (file_path_queue (snd (caller_step fl pc m))) = maxsize (file_path_queue m)"
  "qid (analysis_queue (snd (caller_step fl pc m))) = qid (analysis_queue m)"
  "maxsize (analysis_queue (snd (caller_step fl pc m))) = maxsize (analysis_queue m)"
  by (induction fl pc m rule: caller_step.induct;
      simp add: put_file_def spawn_worker_def q_append_def split: list.splits)+

lemma run_call_fields [simp]:
  "num_workers (run_call turns fl pc m) = num_workers m"
  "worker_function (run_call turns fl pc m) = worker_function m"
  "stop_event (run_call turns fl pc m) = stop_event m"
  "next_oid (run_call turns fl pc m) = next_oid m"
  "qid (file_path_queue (run_call turns fl pc m)) = qid (file_path_queue m)"
  "maxsize (file_path_queue (run_call turns fl pc m)) = maxsize (file_path_queue m)"
  "qid (analysis_queue (run_call turns fl pc m)) = qid (analysis_queue m)"
  "maxsize (analysis_queue (run_call turns fl pc m)) = maxsize (analysis_queue m)"
proof -
  have "num_workers (run_call turns fl pc m) = num_workers m
    \<and> worker_function (run_call turns fl pc m) = worker_function m
    \<and> stop_event (run_call turns fl pc m) = stop_event m
    \<and> next_oid (run_call turns fl pc m) = next_oid m
    \<and> qid (file_path_queue (run_call turns fl pc m)) = qid (file_path_queue m)
    \<and> maxsize (file_path_queue (run_call turns fl pc m)) = maxsize (file_path_queue m)
    \<and> qid (analysis_queue (run_call turns fl pc m)) = qid (analysis_queue m)
    \<and> maxsize (analysis_queue (run_call turns fl pc m)) = maxsize (analysis_queue m)"
    by (rule run_call_invariant) simp_all
  then show
    "num_workers (run_call turns fl pc m) = num_workers m"
    "worker_function (run_call turns fl pc m) = worker_function m"
    "stop_event (run_call turns fl pc m) = stop_event m"
    "next_oid (run_call turns fl pc m) = next_oid m"
    "qid (file_path_queue (run_call turns fl pc m)) = qid (file_path_queue m)"
    "maxsize (file_path_queue (run_call turns fl pc m)) = maxsize (file_path_queue m)"
    "qid (analysis_queue (run_call turns fl pc m)) = qid (analysis_queue m)"
    "maxsize (analysis_queue (run_call turns fl pc m)) = maxsize (analysis_queue m)"
    by simp_all
qed

lemma spawn_pow_fields [simp]:
  "num_workers ((spawn_worker ^^ k) m) = num_workers m"
  "worker_function ((spawn_worker ^^ k) m) = worker_function m"
  "stop_event ((spawn_worker ^^ k) m) = stop_event m"
  "next_oid ((spawn_worker ^^ k) m) = next_oid m"
  "file_path_queue ((spawn_worker ^^ k) m) = file_path_queue m"
  "analysis_queue ((spawn_worker ^^ k) m) = analysis_queue m"
  "error_log ((spawn_worker ^^ k) m) = error_log m"
  by (induction k) (simp_all add: spawn_worker_def)

lemma fold_put_file_fields [simp]:
  "num_workers (fold put_file fl m) = num_workers m"
  "worker_function (fold put_file fl m) = worker_function m"
  "stop_event (fold put_file fl m) = stop_event m"
  "worker_threads (fold put_file fl m) = worker_threads m"
  "next_oid (fold put_file fl m) = next_oid m"
  "analysis_queue (fold put_file fl m) = analysis_queue m"
  "threads (fold put_file fl m) = threads m"
  "error_log (fold put_file fl m) = error_log m"
  "qid (file_path_queue (fold put_file fl m)) = qid (file_path_queue m)"
  "maxsize (file_path_queue (fold put_file fl m)) = maxsize (file_path_queue m)"
  "items (file_path_queue (fold put_file fl m)) = items (file_path_queue m) @ fl"
  by (induction fl arbitrary: m) (simp_all add: put_file_def q_append_def)

lemma stop_workers_fields [simp]:
  "num_workers (stop_workers sched m) = num_workers m"
  "worker_function (stop_workers sched m) = worker_function m"
  "stop_event (stop_workers sched m) = False"
  "worker_threads (stop_workers sched m) = []"
  "next_oid (stop_workers sched m) = next_oid m"
  "qid (file_path_queue (stop_workers sched m)) = qid (file_path_queue m)"
  "maxsize (file_path_queue (stop_workers sched m)) = maxsize (file_path_queue m)"
  "qid (analysis_queue (stop_workers sched m)) = qid (analysis_queue m)"
  "maxsize (analysis_queue (stop_workers sched m)) = maxsize (analysis_queue m)"
  "length (threads (stop_workers sched m)) = length (threads m)"
  by (simp_all add: stop_workers_def Let_def clear_file_queue_def q_clear_def)

lemma start_workers_fields [simp]:
  "num_workers (start_workers sched turns fl m) = num_workers m"
  "worker_function (start_workers sched turns fl m) = worker_function m"
  "stop_event (start_workers sched turns fl m) = False"
  "next_oid (start_workers sched turns fl m) = next_oid m"
  "qid (file_path_queue (start_workers sched turns fl m)) = qid (file_path_queue m)"
  "maxsize (file_path_queue (start_workers sched turns fl m)) = maxsize (file_path_queue m)"
  "qid (analysis_queue (start_workers sched turns fl m)) = qid (analysis_queue m)"
  "maxsize (analysis_queue (start_workers sched turns fl m)) = maxsize (analysis_queue m)"
  by (simp_all add: start_workers_def)

subsection \<open>A call that is not interrupted\<close>

text \<open>
  When no worker thread takes a step after the join, \<^verbatim>\<open>start_workers\<close> is the
  composition of its statements: stop, drain both queues, put the batch, start the threads.
\<close>

lemma run_call_spawn: "run_call [] fl (AtSpawnLoop k) m = (spawn_worker ^^ k) m"
proof (induction k arbitrary: m)
  case 0
  show ?case
    by (simp add: run_call.simps [of "[]" fl "AtSpawnLoop 0" m] run_call.simps [of "[]" fl Returned])
next
  case (Suc k)
  show ?case
    by (simp add: run_call.simps [of "[]" fl "AtSpawnLoop (Suc k)" m] Suc.IH funpow_swap1)
qed

lemma run_call_reset:
  "run_call [] fl AtResetThreads m
     = (spawn_worker ^^ nat (num_workers m)) (m\<lparr>worker_threads := []\<rparr>)"
  by (simp add: run_call.simps [of "[]" fl AtResetThreads m] run_call_spawn)

lemma run_call_put:
  "run_call [] fl (AtPutLoop ps) m = run_call [] fl AtResetThreads (fold put_file ps m)"
proof (induction ps arbitrary: m)
  case Nil
  show ?case by (simp add: run_call.simps [of "[]" fl "AtPutLoop []" m])
next
  case (Cons p ps)
  show ?case
    by (simp add: run_call.simps [of "[]" fl "AtPutLoop (p # ps)" m] Cons.IH)
qed

lemma run_call_clear_analysis:
  "run_call [] fl AtClearAnalysis m
     = run_call [] fl (AtPutLoop fl) (m\<lparr>analysis_queue := (analysis_queue m)\<lparr>items := []\<rparr>\<rparr>)"
proof (induction xs \<equiv> "items (analysis_queue m)" arbitrary: m)
  case Nil
  then have eq: "items (analysis_queue m) = []"
    by simp
  then have same: "m\<lparr>analysis_queue := (analysis_queue m)\<lparr>items := []\<rparr>\<rparr> = m"
    by simp
  show ?case
    unfolding same by (simp add: run_call.simps [of "[]" fl AtClearAnalysis m] eq)
next
  case (Cons x xs)
  from Cons(2) [symmetric] Cons(1) [of "m\<lparr>analysis_queue := (analysis_queue m)\<lparr>items := xs\<rparr>\<rparr>"]
  show ?case
    by (simp add: run_call.simps [of "[]" fl AtClearAnalysis m])
qed

lemma run_call_clear_file:
  "run_call [] fl AtClearFile m
     = run_call [] fl AtClearAnalysis (m\<lparr>file_path_queue := (file_path_queue m)\<lparr>items := []\<rparr>\<rparr>)"
proof (induction xs \<equiv> "items (file_path_queue m)" arbitrary: m)
  case Nil
  then have eq: "items (file_path_queue m) = []"
    by simp
  then have same: "m\<lparr>file_path_queue := (file_path_queue m)\<lparr>items := []\<rparr>\<rparr> = m"
    by simp
  show ?case
    unfolding same by (simp add: run_call.simps [of "[]" fl AtClearFile m] eq)
next
  case (Cons x xs)
  from Cons(2) [symmetric] Cons(1) [of "m\<lparr>file_path_queue := (file_path_queue m)\<lparr>items := xs\<rparr>\<rparr>"]
  show ?case
    by (simp add: run_call.simps [of "[]" fl AtClearFile m])
qed

lemma start_workers_uninterrupted:
  "start_workers sched [] fl m
     = (spawn_worker ^^ nat (num_workers m))
         ((fold put_file fl (clear_queues (stop_workers sched m)))\<lparr>worker_threads := []\<rparr>)"
  by (simp add: start_workers_def run_call_clear_file run_call_clear_analysis run_call_put
        run_call_reset clear_queues_def clear_file_queue_def q_clear_def Let_def)

lemma start_workers_uninterrupted_items:
  "items (analysis_queue (start_workers sched [] fl m)) = []"
  "items (file_path_queue (start_workers sched [] fl m)) = fl"
  by (simp_all add: start_workers_uninterrupted clear_queues_def clear_file_queue_def
        q_clear_def Let_def)

lemma get_result_fields [simp]:
  "num_workers (snd (get_result m)) = num_workers m"
  "worker_function (snd (get_result m)) = worker_function m"
  "maxsize (analysis_queue (snd (get_result m))) = maxsize (analysis_queue m)"
  "threads (snd (get_result m)) = threads m"
  by (simp_all add: get_result_def split: list.splits)

lemma exec_maxsize [simp]:
  "maxsize (analysis_queue (exec m ev)) = maxsize (analysis_queue m)"
  by (cases ev) simp_all

lemma run_maxsize [simp]:
  "maxsize (analysis_queue (run m evs)) = maxsize (analysis_queue m)"
  unfolding run_def by (induction evs arbitrary: m) simp_all

lemma exec_worker_function [simp]: "worker_function (exec m ev) = worker_function m"
  by (cases ev) simp_all

lemma run_worker_function [simp]: "worker_function (run m evs) = worker_function m"
  unfolding run_def by (induction evs arbitrary: m) simp_all

subsection \<open>The bound of the output queue\<close>

lemma worker_step_bounded: "out_bounded m \<Longrightarrow> out_bounded (worker_step tid m)"
  unfolding out_bounded_def
  by (auto simp: worker_step_def set_pc_def q_append_def q_full_def
           split: worker_pc.splits list.splits sum.splits exn.splits)

lemma run_workers_bounded: "out_bounded m \<Longrightarrow> out_bounded (run_workers sched m)"
  by (induction sched arbitrary: m) (simp_all add: worker_step_bounded)

lemma caller_step_bounded: "out_bounded m \<Longrightarrow> out_bounded (snd (caller_step fl pc m))"
  by (induction fl pc m rule: caller_step.induct)
     (auto simp: out_bounded_def put_file_def spawn_worker_def split: list.splits)

lemma stop_workers_bounded:
  assumes "out_bounded m"
  shows "out_bounded (stop_workers sched m)"
proof -
  have "out_bounded (clear_file_queue (m\<lparr>stop_event := True\<rparr>))"
    using assms by (simp add: out_bounded_def clear_file_queue_def)
  from run_workers_bounded [OF this, of sched] show ?thesis
    by (simp add: out_bounded_def stop_workers_def Let_def)
qed

lemma start_workers_bounded:
  assumes "out_bounded m"
  shows "out_bounded (start_workers sched turns fl m)"
  unfolding start_workers_def
  by (rule run_call_invariant)
     (simp_all add: caller_step_bounded worker_step_bounded stop_workers_bounded assms)

lemma get_result_bounded: "out_bounded m \<Longrightarrow> out_bounded (snd (get_result m))"
  by (auto simp: out_bounded_def get_result_def split: list.splits)

lemma exec_bounded: "out_bounded m \<Longrightarrow> out_bounded (exec m ev)"
  by (cases ev)
     (simp_all add: worker_step_bounded start_workers_bounded stop_workers_bounded
        get_result_bounded)

lemma run_bounded: "out_bounded m \<Longrightarrow> out_bounded (run m evs)"
  unfolding run_def by (induction evs arbitrary: m) (simp_all add: exec_bounded)

lemma put_blocks_when_full:
  assumes "tid < length (threads m)" and "threads m ! tid = AtPut p r"
    and "q_full (analysis_queue m)"
  shows "worker_step tid m = m"
  using assms by (simp add: worker_step_def)

text \<open>
  Claim C5.  A manager constructed for \<^verbatim>\<open>n\<close> workers, with \<^verbatim>\<open>n\<close> not negative, gives its
  output queue the capacity \<^verbatim>\<open>n + 1\<close>, and after any execution (worker steps in any
  order, restarts under any interleaving, stops and results taken, in any number) the
  output queue still has that capacity and holds at most \<^verbatim>\<open>n + 1\<close> results.  A worker
  that is in \<^verbatim>\<open>put\<close> while the queue holds \<^verbatim>\<open>n + 1\<close> results is blocked: its step
  changes nothing.
\<close>

theorem output_queue_bounded:
  assumes "0 \<le> n"
  shows "maxsize (analysis_queue (run (WorkerManager n f) evs)) = n + 1
     \<and> int (qsize (analysis_queue (run (WorkerManager n f) evs))) \<le> n + 1
     \<and> (tid < length (threads (run (WorkerManager n f) evs))
          \<and> threads (run (WorkerManager n f) evs) ! tid = AtPut p r
          \<and> int (qsize (analysis_queue (run (WorkerManager n f) evs))) = n + 1
        \<longrightarrow> worker_step tid (run (WorkerManager n f) evs) = run (WorkerManager n f) evs)"
proof -
  have init: "out_bounded (WorkerManager n f)"
    and ms: "maxsize (analysis_queue (WorkerManager n f)) = n + 1"
    using assms by (simp_all add: out_bounded_def WorkerManager_def Queue_def)
  from run_bounded [OF init, of evs] ms show ?thesis
    by (auto simp: out_bounded_def qsize_def q_full_def intro!: put_blocks_when_full)
qed

theorem output_queue_bounded_witness:
  "(0::int) \<le> 1
   \<and> qsize (analysis_queue (run (WorkerManager 1 analyze_stub) backlog_trace)) = 2
   \<and> (\<exists>r. threads (run (WorkerManager 1 analyze_stub) backlog_trace) ! 0 = AtPut ''a3.mp3'' r)
   \<and> worker_step 0 (run (WorkerManager 1 analyze_stub) backlog_trace)
       = run (WorkerManager 1 analyze_stub) backlog_trace"
proof -
  have "qsize (analysis_queue (run (WorkerManager 1 analyze_stub) backlog_trace)) = 2"
    and "0 < length (threads (run (WorkerManager 1 analyze_stub) backlog_trace))"
    and "threads (run (WorkerManager 1 analyze_stub) backlog_trace) ! 0
           = AtPut ''a3.mp3'' \<lparr>filepath = ''a3.mp3'', audio_data = [], duration = 0,
                waveform_lines = [], metadata = []\<rparr>"
    by code_simp+
  with output_queue_bounded [of 1 analyze_stub backlog_trace 0 "''a3.mp3''"]
  show ?thesis by simp
qed

subsection \<open>Failures of single items\<close>

lemma worker_step_results_ok:
  assumes "results_ok m"
  shows "results_ok (worker_step tid m)"
proof (cases "tid < length (threads m)")
  case False
  with assms show ?thesis by (simp add: worker_step_def)
next
  case True
  show ?thesis
  proof (cases "threads m ! tid")
    case AtWhile
    with True assms show ?thesis
      by (auto simp: results_ok_def worker_step_def set_pc_def nth_list_update)
  next
    case AtGet
    with True assms show ?thesis
      by (auto simp: results_ok_def worker_step_def set_pc_def nth_list_update
               split: list.splits)
  next
    case (AtCall p)
    with True assms show ?thesis
      by (auto simp: results_ok_def worker_step_def set_pc_def nth_list_update
               split: sum.splits exn.splits)
  next
    case (AtPut p r)
    from assms have "\<forall>i < length (threads m). \<forall>p r.
        threads m ! i = AtPut p r \<longrightarrow> worker_function m p = Inr r"
      by (simp add: results_ok_def)
    with True AtPut have "worker_function m p = Inr r"
      by blast
    then have ok: "\<exists>q. worker_function m q = Inr r" ..
    show ?thesis
    proof (cases "q_full (analysis_queue m)")
      case full: True
      with AtPut True assms show ?thesis by (simp add: worker_step_def)
    next
      case room: False
      with AtPut True have step: "worker_step tid m =
          set_pc tid AtWhile (m\<lparr>analysis_queue := q_append r (analysis_queue m)\<rparr>)"
        by (simp add: worker_step_def)
      from assms ok True show ?thesis
        unfolding step by (auto simp: results_ok_def set_pc_def q_append_def nth_list_update)
    qed
  next
    case Exited
    with True assms show ?thesis by (simp add: worker_step_def)
  qed
qed

lemma run_workers_results_ok: "results_ok m \<Longrightarrow> results_ok (run_workers sched m)"
  by (induction sched arbitrary: m) (simp_all add: worker_step_results_ok)

lemma caller_step_results_ok:
  assumes "results_ok m"
  shows "results_ok (snd (caller_step fl pc m))"
  using assms
  by (induction fl pc m rule: caller_step.induct)
     (auto simp: results_ok_def put_file_def spawn_worker_def nth_append split: list.splits)

lemma stop_workers_results_ok:
  assumes "results_ok m"
  shows "results_ok (stop_workers sched m)"
proof -
  have "results_ok (clear_file_queue (m\<lparr>stop_event := True\<rparr>))"
    using assms by (simp add: results_ok_def clear_file_queue_def)
  from run_workers_results_ok [OF this, of sched] show ?thesis
    by (simp add: results_ok_def stop_workers_def Let_def)
qed

lemma start_workers_results_ok:
  assumes "results_ok m"
  shows "results_ok (start_workers sched turns fl m)"
  unfolding start_workers_def
  by (rule run_call_invariant)
     (simp_all add: caller_step_results_ok worker_step_results_ok stop_workers_results_ok assms)

lemma get_result_results_ok: "results_ok m \<Longrightarrow> results_ok (snd (get_result m))"
  by (auto simp: results_ok_def get_result_def split: list.splits)

lemma exec_results_ok: "results_ok m \<Longrightarrow> results_ok (exec m ev)"
  by (cases ev)
     (simp_all add: worker_step_results_ok start_workers_results_ok stop_workers_results_ok
        get_result_results_ok)

lemma run_results_ok: "results_ok m \<Longrightarrow> results_ok (run m evs)"
  unfolding run_def by (induction evs arbitrary: m) (simp_all add: exec_results_ok)

text \<open>
  Claim C6.  When the worker function raises on the path a worker holds, the step of that
  worker writes one line to the error log and returns the worker to the test of its loop:
  the output queue is unchanged (no result for the path), the input queue is unchanged
  (the path is not queued again), the worker is alive, and no other thread is touched.
  Moreover, after any execution every result in the output queue is one that the worker
  function returned for some path.
\<close>

theorem failure_contained:
  assumes "tid < length (threads m)" and "threads m ! tid = AtCall p"
    and "worker_function m p = Inl (Exception e)"
  shows "analysis_queue (worker_step tid m) = analysis_queue m
     \<and> file_path_queue (worker_step tid m) = file_path_queue m
     \<and> threads (worker_step tid m) = (threads m)[tid := AtWhile]
     \<and> is_alive (worker_step tid m) tid
     \<and> error_log (worker_step tid m)
         = error_log m @ [''Worker error processing '' @ p @ '': '' @ e]
     \<and> (r \<in> set (items (analysis_queue (run (WorkerManager n f) evs)))
          \<longrightarrow> (\<exists>q. f q = Inr r))"
proof -
  have "results_ok (WorkerManager n f)"
    by (simp add: results_ok_def WorkerManager_def Queue_def)
  from run_results_ok [OF this, of evs]
  have "r \<in> set (items (analysis_queue (run (WorkerManager n f) evs)))
          \<longrightarrow> (\<exists>q. f q = Inr r)"
    by (auto simp: results_ok_def WorkerManager_def)
  with assms show ?thesis
    by (simp add: worker_step_def set_pc_def is_alive_def)
qed

theorem failure_contained_witness:
  "threads corrupt_pool = [AtCall ''corrupt.mp3'']
   \<and> worker_function corrupt_pool ''corrupt.mp3'' = Inl (Exception ''DecodeError'')
   \<and> items (analysis_queue (worker_step 0 corrupt_pool)) = []
   \<and> items (file_path_queue (worker_step 0 corrupt_pool)) = [''ok.mp3'']
   \<and> threads (worker_step 0 corrupt_pool) = [AtWhile]
   \<and> error_log (worker_step 0 corrupt_pool)
       = [''Worker error processing corrupt.mp3: DecodeError'']
   \<and> map filepath
        (items (analysis_queue (run corrupt_pool [Work 0, Work 0, Work 0, Work 0, Work 0])))
       = [''ok.mp3'']"
proof -
  have pool: "threads corrupt_pool = [AtCall ''corrupt.mp3'']"
    "items (analysis_queue corrupt_pool) = []"
    "items (file_path_queue corrupt_pool) = [''ok.mp3'']"
    "error_log corrupt_pool = []"
    "map filepath
        (items (analysis_queue (run corrupt_pool [Work 0, Work 0, Work 0, Work 0, Work 0])))
       = [''ok.mp3'']"
    by code_simp+
  have wf: "worker_function corrupt_pool ''corrupt.mp3'' = Inl (Exception ''DecodeError'')"
    by (simp add: corrupt_pool_def WorkerManager_def analyze_stub_def)
  from failure_contained [of 0 corrupt_pool "''corrupt.mp3''" "''DecodeError''"
      "\<lparr>filepath = ''ok.mp3'', audio_data = [], duration = 0, waveform_lines = [],
         metadata = []\<rparr>" 1 analyze_stub "[]"] pool wf
  show ?thesis by simp
qed

subsection \<open>The worker loop\<close>

text \<open>
  Claim C2, as the source has it.  A worker that finds the stop flag set at the test of its
  loop returns without claiming a path, and a worker whose \<^verbatim>\<open>get\<close> ends on the empty
  input queue returns as well: \<^verbatim>\<open>queue.Empty\<close> leaves the loop.  In both cases the input
  queue is unchanged.
\<close>

theorem worker_exits_on_stop_or_empty:
  assumes "tid < length (threads m)"
  shows "(threads m ! tid = AtWhile \<and> stop_event m \<longrightarrow>
            threads (worker_step tid m) ! tid = Exited
            \<and> \<not> is_alive (worker_step tid m) tid
            \<and> file_path_queue (worker_step tid m) = file_path_queue m)
     \<and> (threads m ! tid = AtGet \<and> q_empty (file_path_queue m) \<longrightarrow>
            threads (worker_step tid m) ! tid = Exited
            \<and> \<not> is_alive (worker_step tid m) tid
            \<and> file_path_queue (worker_step tid m) = file_path_queue m)"
  using assms by (simp add: worker_step_def set_pc_def q_empty_def is_alive_def)

theorem worker_exits_on_stop_or_empty_witness:
  "threads idle_pool = [AtCall ''a.mp3'', AtGet] \<and> \<not> stop_event idle_pool
   \<and> q_empty (file_path_queue idle_pool)
   \<and> threads (worker_step 1 idle_pool) = [AtCall ''a.mp3'', Exited]
   \<and> threads stopping_pool = [AtWhile] \<and> stop_event stopping_pool
   \<and> threads (worker_step 0 stopping_pool) = [Exited]
   \<and> items (file_path_queue (worker_step 0 stopping_pool)) = [''a.mp3'']"
proof -
  have idle: "threads idle_pool = [AtCall ''a.mp3'', AtGet] \<and> \<not> stop_event idle_pool
      \<and> q_empty (file_path_queue idle_pool) \<and> 1 < length (threads idle_pool)
      \<and> threads idle_pool ! 1 = AtGet"
    by code_simp
  have stopping: "threads stopping_pool = [AtWhile] \<and> stop_event stopping_pool
      \<and> 0 < length (threads stopping_pool) \<and> threads stopping_pool ! 0 = AtWhile
      \<and> items (file_path_queue stopping_pool) = [''a.mp3'']"
    by code_simp
  have len: "length (threads (worker_step 1 idle_pool)) = 2"
    "length (threads (worker_step 0 stopping_pool)) = 1"
    "threads (worker_step 1 idle_pool) ! 0 = AtCall ''a.mp3''"
    by code_simp+
  from idle have "1 < length (threads idle_pool)" by simp
  from worker_exits_on_stop_or_empty [OF this] idle
  have a: "threads (worker_step 1 idle_pool) ! 1 = Exited" by simp
  from stopping have "0 < length (threads stopping_pool)" by simp
  from worker_exits_on_stop_or_empty [OF this] stopping
  have b: "threads (worker_step 0 stopping_pool) ! 0 = Exited"
    and c: "file_path_queue (worker_step 0 stopping_pool) = file_path_queue stopping_pool"
    by simp_all
  have "threads (worker_step 1 idle_pool) = [AtCall ''a.mp3'', Exited]"
    using a len(1,3) by (simp add: list_eq_iff_nth_eq less_Suc_eq numeral_2_eq_2)
  moreover have "threads (worker_step 0 stopping_pool) = [Exited]"
    using b len(2) by (simp add: list_eq_iff_nth_eq)
  ultimately show ?thesis
    using idle stopping c by simp
qed

text \<open>
  Claim C2 as the specification words it fails: with the stop flag clear and the input
  queue empty, the second worker of a pool started on one file does not loop again, it
  returns.
\<close>

theorem worker_loops_again_counterexample:
  "\<not> stop_event idle_pool \<and> q_empty (file_path_queue idle_pool)
   \<and> threads idle_pool ! 1 = AtGet
   \<and> threads (worker_step 1 idle_pool) ! 1 = Exited
   \<and> \<not> is_alive (worker_step 1 idle_pool) 1"
  by code_simp

subsection \<open>Restarting the pool\<close>

lemma blocked_worker_step:
  assumes "q_full (analysis_queue m)"
    and "\<forall>i < length (threads m). \<exists>p r. threads m ! i = AtPut p r"
  shows "worker_step tid m = m"
proof (cases "tid < length (threads m)")
  case True
  with assms(2) obtain p r where "threads m ! tid = AtPut p r" by blast
  with True assms(1) show ?thesis by (simp add: worker_step_def)
next
  case False
  then show ?thesis by (simp add: worker_step_def)
qed

lemma blocked_run_workers:
  assumes "q_full (analysis_queue m)"
    and "\<forall>i < length (threads m). \<exists>p r. threads m ! i = AtPut p r"
  shows "run_workers sched m = m"
  by (induction sched) (simp_all add: blocked_worker_step [OF assms])

lemma backlog_blocked:
  "q_full (analysis_queue (clear_file_queue
       ((run (WorkerManager 1 analyze_stub) backlog_trace)\<lparr>stop_event := True\<rparr>)))"
  "\<forall>i < length (threads (clear_file_queue
       ((run (WorkerManager 1 analyze_stub) backlog_trace)\<lparr>stop_event := True\<rparr>))).
     \<exists>p r. threads (clear_file_queue
       ((run (WorkerManager 1 analyze_stub) backlog_trace)\<lparr>stop_event := True\<rparr>)) ! i
         = AtPut p r"
proof -
  have "q_full (analysis_queue (run (WorkerManager 1 analyze_stub) backlog_trace))"
    and "length (threads (run (WorkerManager 1 analyze_stub) backlog_trace)) = 1"
    and "threads (run (WorkerManager 1 analyze_stub) backlog_trace) ! 0
           = AtPut ''a3.mp3'' \<lparr>filepath = ''a3.mp3'', audio_data = [], duration = 0,
                waveform_lines = [], metadata = []\<rparr>"
    by code_simp+
  then show
    "q_full (analysis_queue (clear_file_queue
       ((run (WorkerManager 1 analyze_stub) backlog_trace)\<lparr>stop_event := True\<rparr>)))"
    "\<forall>i < length (threads (clear_file_queue
       ((run (WorkerManager 1 analyze_stub) backlog_trace)\<lparr>stop_event := True\<rparr>))).
     \<exists>p r. threads (clear_file_queue
       ((run (WorkerManager 1 analyze_stub) backlog_trace)\<lparr>stop_event := True\<rparr>)) ! i
         = AtPut p r"
    by (simp_all add: clear_file_queue_def q_full_def)
qed

lemma run_append: "run m (evs @ evs') = run (run m evs) evs'"
  by (simp add: run_def)

lemma backlog_stop:
  "stop_workers sched (run (WorkerManager 1 analyze_stub) backlog_trace)
      = stop_workers [] (run (WorkerManager 1 analyze_stub) backlog_trace)"
  by (simp add: stop_workers_def Let_def blocked_run_workers [OF backlog_blocked])

text \<open>
  Claim C1 fails on the source.  In the execution \<^verbatim>\<open>restart_trace\<close> the worker of batch A
  waits in \<^verbatim>\<open>put\<close> with the result of \<^verbatim>\<open>a3.mp3\<close> when the pool is started again with
  batch B.  However the threads are scheduled during the join, the worker cannot return:
  the join times out, the flag is cleared and the queues are drained, and the worker then
  pushes its result into the queue of the new session.  The next \<^verbatim>\<open>get_result\<close> returns
  the result of \<^verbatim>\<open>a3.mp3\<close>, a file of batch A and not of batch B.
\<close>

theorem stale_result_after_restart:
  "map_option filepath
      (fst (get_result (run (WorkerManager 1 analyze_stub) (restart_trace sched))))
     = Some ''a3.mp3''
   \<and> ''a3.mp3'' \<in> set batch_A \<and> ''a3.mp3'' \<notin> set batch_B"
proof -
  have start: "start_workers sched [] batch_B (run (WorkerManager 1 analyze_stub) backlog_trace)
      = start_workers [] [] batch_B (run (WorkerManager 1 analyze_stub) backlog_trace)"
    by (simp only: start_workers_def backlog_stop [of sched])
  have "run (WorkerManager 1 analyze_stub) (restart_trace sched)
      = run (WorkerManager 1 analyze_stub) (restart_trace [])"
    by (simp add: restart_trace_def run_append run_def [of _ "[_, _]"] start)
  moreover have "map_option filepath
      (fst (get_result (run (WorkerManager 1 analyze_stub) (restart_trace []))))
     = Some ''a3.mp3''"
    by code_simp
  moreover have "''a3.mp3'' \<in> set batch_A \<and> ''a3.mp3'' \<notin> set batch_B"
    by (simp add: batch_A_def batch_B_def)
  ultimately show ?thesis by simp
qed

text \<open>
  Claim C8.  \<^verbatim>\<open>start_workers\<close> constructs no queue: under every interleaving both queues
  keep their identity and no object is allocated.  But the drain does not leave the
  output queue free of results from before the call: in \<^verbatim>\<open>race_turns\<close> the worker of
  batch A, which waits in \<^verbatim>\<open>put\<close> with the result of \<^verbatim>\<open>a3.mp3\<close> and outlives the join
  however the threads are scheduled during it, is let in while the new thread is started.
  When \<^verbatim>\<open>start_workers\<close> returns, the output queue, the same object as before, holds the
  result of \<^verbatim>\<open>a3.mp3\<close>, a file of batch A and not of batch B, followed by the result of
  \<^verbatim>\<open>b1.mp3\<close>, and the input queue is empty.
\<close>

theorem stale_result_at_return:
  "qid (file_path_queue (start_workers sched' turns file_list m)) = qid (file_path_queue m)
   \<and> qid (analysis_queue (start_workers sched' turns file_list m)) = qid (analysis_queue m)
   \<and> next_oid (start_workers sched' turns file_list m) = next_oid m
   \<and> map filepath (items (analysis_queue
      (start_workers sched race_turns batch_B
         (run (WorkerManager 1 analyze_stub) backlog_trace))))
     = [''a3.mp3'', ''b1.mp3'']
   \<and> items (file_path_queue
      (start_workers sched race_turns batch_B
         (run (WorkerManager 1 analyze_stub) backlog_trace))) = []
   \<and> qid (analysis_queue
      (start_workers sched race_turns batch_B
         (run (WorkerManager 1 analyze_stub) backlog_trace)))
       = qid (analysis_queue (run (WorkerManager 1 analyze_stub) backlog_trace))
   \<and> ''a3.mp3'' \<in> set batch_A \<and> ''a3.mp3'' \<notin> set batch_B"
proof -
  have start: "start_workers sched race_turns batch_B
        (run (WorkerManager 1 analyze_stub) backlog_trace)
      = start_workers [] race_turns batch_B (run (WorkerManager 1 analyze_stub) backlog_trace)"
    by (simp only: start_workers_def backlog_stop [of sched])
  have "map filepath (items (analysis_queue
      (start_workers [] race_turns batch_B
         (run (WorkerManager 1 analyze_stub) backlog_trace))))
     = [''a3.mp3'', ''b1.mp3'']"
    and "items (file_path_queue
      (start_workers [] race_turns batch_B
         (run (WorkerManager 1 analyze_stub) backlog_trace))) = []"
    by code_simp+
  moreover have "''a3.mp3'' \<in> set batch_A \<and> ''a3.mp3'' \<notin> set batch_B"
    by (simp add: batch_A_def batch_B_def)
  ultimately show ?thesis
    unfolding start by simp
qed

end
